theory Spec2Isabelle
  imports Complex_Main
begin

section \<open>Numbers and errors\<close>

text \<open>
  The library works on NumPy float64 values. The embedding is over exact arithmetic:
  a finite float is a \<^typ>\<open>real\<close>, and no operation rounds its result to the nearest
  representable float. Python exceptions are values of \<open>error\<close>; a function that can
  raise returns \<open>error + 'a\<close> with \<open>Inl\<close> for the exception.

  \<open>DegreesOfFreedomError\<close> and \<open>LengthMismatchError\<close> are the names the
  specification uses; no line of \<^verbatim>\<open>funcs.py\<close> raises them. They are part of
  the type so that statements about them can be written down.
\<close>

datatype error =
    ValueError
  | OverflowError
  | IndexError
  | TypeError
  | LinAlgError
  | SolverError
  | DegreesOfFreedomError
  | LengthMismatchError

section \<open>Significant-figure rounding\<close>

subsection \<open>NumPy primitives\<close>

text \<open>
  \<^verbatim>\<open>np.rint\<close>: the nearest integer, a tie going to the even neighbour.
\<close>

definition rint :: "real \<Rightarrow> int" where
  "rint x =
     (let f = \<lfloor>x\<rfloor>; r = x - of_int f
      in if r < 1 / 2 then f
         else if 1 / 2 < r then f + 1
         else if even f then f else f + 1)"

text \<open>
  \<^verbatim>\<open>np.round(x, d)\<close> scales by \<open>10 ** d\<close>, applies \<open>rint\<close> and scales
  back; a negative \<open>d\<close> rounds to the left of the decimal point.
\<close>

definition np_round :: "real \<Rightarrow> int \<Rightarrow> real" where
  "np_round x d = of_int (rint (x * 10 powi d)) / 10 powi d"

text \<open>
  \<^verbatim>\<open>np.floor(np.log10(u))\<close>, the decimal exponent of the leading digit of a
  positive \<open>u\<close>.
\<close>

definition floor_log10 :: "real \<Rightarrow> int" where
  "floor_log10 u = \<lfloor>log 10 u\<rfloor>"

text \<open>
  \<^verbatim>\<open>int(-(np.floor(np.log10(u))))\<close> and \<^verbatim>\<open>int(1 - (np.floor(np.log10(u))))\<close>
  go through this conversion. \<open>np.log10\<close> of a negative number is NaN and of zero
  is \<open>-inf\<close>; Python's \<open>int\<close> raises ValueError on NaN and OverflowError on an
  infinity.
\<close>

definition int_floor_log10 :: "real \<Rightarrow> error + int" where
  "int_floor_log10 u =
     (if 0 < u then Inr (floor_log10 u)
      else if u = 0 then Inl OverflowError
      else Inl ValueError)"

text \<open>
  \<^verbatim>\<open>np.floor(u / (10**np.floor(np.log10(u)))) != 1.0\<close> is evaluated in float64.
  The logarithm and the power are library functions and the quotient is rounded, so
  that for an uncertainty next to a power of ten, or next to twice one, the computed
  quotient can fall on the other side of 1 or of 2 than the exact quotient does.
  Exact arithmetic does not say what the test yields, so its outcome for a positive
  \<open>u\<close> is a parameter of the model, \<open>float_test u\<close>. For a negative \<open>u\<close> the left
  side is NaN, and NaN differs from every number.
\<close>

type_synonym leading_test = "real \<Rightarrow> bool"

definition leading_digit_not_one :: "leading_test \<Rightarrow> real \<Rightarrow> bool" where
  "leading_digit_not_one float_test u = (if 0 < u then float_test u else True)"

subsection \<open>\<^verbatim>\<open>round_sig_fig_uncertainty\<close>\<close>

text \<open>
  The two branches after the zero test, which the source writes out twice (once for
  an element of an array, once for a scalar):
  \<^verbatim>\<open>
  elif np.floor(u / (10**np.floor(np.log10(u)))) != 1.0:
      u_rnd = np.round(u, int(-(np.floor(np.log10(u)))))
      v_rnd = np.round(v, int(-(np.floor(np.log10(u_rnd)))))
  else:
      u_rnd = np.round(u, int(1 - (np.floor(np.log10(u)))))
      v_rnd = np.round(v, int(1 - (np.floor(np.log10(u_rnd)))))
  \<close>
\<close>

definition round_nonzero :: "leading_test \<Rightarrow> real \<Rightarrow> real \<Rightarrow> error + (real \<times> real)" where
  "round_nonzero float_test v u =
     (if leading_digit_not_one float_test u then
        (case int_floor_log10 u of
           Inl e \<Rightarrow> Inl e
         | Inr k \<Rightarrow>
             (let u_rnd = np_round u (- k)
              in case int_floor_log10 u_rnd of
                   Inl e \<Rightarrow> Inl e
                 | Inr k' \<Rightarrow> Inr (np_round v (- k'), u_rnd)))
      else
        (case int_floor_log10 u of
           Inl e \<Rightarrow> Inl e
         | Inr k \<Rightarrow>
             (let u_rnd = np_round u (1 - k)
              in case int_floor_log10 u_rnd of
                   Inl e \<Rightarrow> Inl e
                 | Inr k' \<Rightarrow> Inr (np_round v (1 - k'), u_rnd))))"

text \<open>The scalar branch (\<open>isinstance(value, float) or isinstance(value, int)\<close>).\<close>

definition round_sig_fig_uncertainty_scalar ::
  "leading_test \<Rightarrow> real \<Rightarrow> real \<Rightarrow> error + (real \<times> real)" where
  "round_sig_fig_uncertainty_scalar float_test v u =
     (if u = 0 then Inr (v, u) else round_nonzero float_test v u)"

text \<open>
  The array branch: \<open>for i in range(len(value))\<close>, reading \<open>uncertainty[i]\<close> and
  appending to the two output arrays. Reading past the end of \<open>uncertainty\<close> raises
  IndexError; the length of \<open>uncertainty\<close> is never compared with that of \<open>value\<close>.
\<close>

fun round_loop ::
  "leading_test \<Rightarrow> real list \<Rightarrow> real list \<Rightarrow> nat list \<Rightarrow> real list \<times> real list
    \<Rightarrow> error + (real list \<times> real list)"
where
  "round_loop float_test value uncertainty [] out = Inr out"
| "round_loop float_test value uncertainty (i # rest) (value_out, uncertainty_out) =
     (if length uncertainty \<le> i then Inl IndexError
      else if uncertainty ! i = 0 then
        round_loop float_test value uncertainty rest
          (value_out @ [value ! i], uncertainty_out @ [uncertainty ! i])
      else
        (case round_nonzero float_test (value ! i) (uncertainty ! i) of
           Inl e \<Rightarrow> Inl e
         | Inr (value_rnd, uncertainty_rnd) \<Rightarrow>
             round_loop float_test value uncertainty rest
               (value_out @ [value_rnd], uncertainty_out @ [uncertainty_rnd])))"

definition round_sig_fig_uncertainty_array ::
  "leading_test \<Rightarrow> real list \<Rightarrow> real list \<Rightarrow> error + (real list \<times> real list)" where
  "round_sig_fig_uncertainty_array float_test value uncertainty =
     round_loop float_test value uncertainty [0..<length value] ([], [])"

text \<open>
  The dispatch on the type of \<open>value\<close>, for a call whose \<open>uncertainty\<close> is of the
  same kind as its \<open>value\<close>: two arrays or lists, two numbers, or two objects of
  another type (\<open>pyobject\<close>), which are returned as they came.
\<close>

typedecl pyobject

datatype value_uncertainty =
    ScalarPair real real
  | ArrayPair "real list" "real list"
  | OtherPair pyobject pyobject

fun round_sig_fig_uncertainty ::
  "leading_test \<Rightarrow> value_uncertainty \<Rightarrow> error + value_uncertainty" where
  "round_sig_fig_uncertainty float_test (ArrayPair value uncertainty) =
     map_sum id (\<lambda>(vs, us). ArrayPair vs us)
       (round_sig_fig_uncertainty_array float_test value uncertainty)"
| "round_sig_fig_uncertainty float_test (ScalarPair value uncertainty) =
     map_sum id (\<lambda>(v, u). ScalarPair v u)
       (round_sig_fig_uncertainty_scalar float_test value uncertainty)"
| "round_sig_fig_uncertainty float_test (OtherPair value uncertainty) =
     Inr (OtherPair value uncertainty)"

subsection \<open>\<^verbatim>\<open>round_sig_fig\<close>\<close>












subsection \<open>The rounding the specification describes\<close>

text \<open>
  Three notions in the specification's words, against which the functions above are
  compared. \<open>r\<close> is \<open>x\<close> rounded to the decimal place \<open>k\<close> when it is a multiple of
  \<open>10^k\<close> and no farther from \<open>x\<close> than half of \<open>10^k\<close>. Rounding to \<open>n\<close>
  significant figures is rounding to decimal place \<open>-(e - n + 1)\<close>, where \<open>e\<close> is
  \<open>floor(log10(|value|))\<close>. The leading digit of a positive number is the integer
  part of its quotient by the power of ten at its decimal exponent; \<open>exact_test\<close> is
  the test for a leading digit other than 1 as exact arithmetic decides it.
\<close>

definition leading_digit :: "real \<Rightarrow> int" where
  "leading_digit u = \<lfloor>u / 10 powi floor_log10 u\<rfloor>"

definition exact_test :: leading_test where
  "exact_test u \<longleftrightarrow> leading_digit u \<noteq> 1"

definition rounded_to_place :: "real \<Rightarrow> int \<Rightarrow> real \<Rightarrow> bool" where
  "rounded_to_place x k r \<longleftrightarrow>
     (\<exists>m::int. r = of_int m * 10 powi k) \<and> \<bar>r - x\<bar> \<le> 10 powi k / 2"


section \<open>Array search\<close>

text \<open>
  \<^verbatim>\<open>np.searchsorted(array, value, side="left")\<close> is a binary search for the first
  position whose element is not less than \<open>value\<close>:
  \<^verbatim>\<open>
  while lo < hi:
      mid = lo + (hi - lo) // 2
      if array[mid] < value: lo = mid + 1
      else: hi = mid
  return lo
  \<close>
\<close>

function searchsorted_left :: "real list \<Rightarrow> real \<Rightarrow> nat \<Rightarrow> nat \<Rightarrow> nat" where
  "searchsorted_left array v lo hi =
     (if lo < hi then
        (let mid = lo + (hi - lo) div 2
         in if array ! mid < v then searchsorted_left array v (mid + 1) hi
            else searchsorted_left array v lo mid)
      else lo)"
  by pat_completeness auto
termination
  by (relation "measure (\<lambda>(array, v, lo, hi). hi - lo)") auto

definition find_nearest_index :: "real \<Rightarrow> real list \<Rightarrow> nat" where
  "find_nearest_index v array = searchsorted_left array v 0 (length array)"

section \<open>Fitting\<close>

subsection \<open>Float arithmetic with its special values\<close>

text \<open>
  The fitter divides by quantities that can be zero, and NumPy does not raise there:
  a float64 division by zero gives \<open>inf\<close> or \<open>nan\<close> (with a RuntimeWarning), and
  the square root of a negative number gives \<open>nan\<close>. The values of the fitter are
  therefore finite reals together with the two infinities and NaN. Finite results are
  exact; the sign of a zero is not tracked (a zero divisor counts as \<open>+0\<close>).
\<close>

datatype npfloat = Fin real | PInf | NInf | NaN

fun np_neg :: "npfloat \<Rightarrow> npfloat" where
  "np_neg (Fin a) = Fin (- a)"
| "np_neg PInf = NInf"
| "np_neg NInf = PInf"
| "np_neg NaN = NaN"

fun np_add :: "npfloat \<Rightarrow> npfloat \<Rightarrow> npfloat" where
  "np_add (Fin a) (Fin b) = Fin (a + b)"
| "np_add NaN _ = NaN"
| "np_add _ NaN = NaN"
| "np_add PInf NInf = NaN"
| "np_add NInf PInf = NaN"
| "np_add PInf _ = PInf"
| "np_add _ PInf = PInf"
| "np_add NInf _ = NInf"
| "np_add _ NInf = NInf"

definition np_sub :: "npfloat \<Rightarrow> npfloat \<Rightarrow> npfloat" where
  "np_sub a b = np_add a (np_neg b)"

fun np_mul :: "npfloat \<Rightarrow> npfloat \<Rightarrow> npfloat" where
  "np_mul (Fin a) (Fin b) = Fin (a * b)"
| "np_mul NaN _ = NaN"
| "np_mul _ NaN = NaN"
| "np_mul PInf (Fin b) = (if b = 0 then NaN else if 0 < b then PInf else NInf)"
| "np_mul NInf (Fin b) = (if b = 0 then NaN else if 0 < b then NInf else PInf)"
| "np_mul (Fin a) PInf = (if a = 0 then NaN else if 0 < a then PInf else NInf)"
| "np_mul (Fin a) NInf = (if a = 0 then NaN else if 0 < a then NInf else PInf)"
| "np_mul PInf PInf = PInf"
| "np_mul PInf NInf = NInf"
| "np_mul NInf PInf = NInf"
| "np_mul NInf NInf = PInf"

fun np_div :: "npfloat \<Rightarrow> npfloat \<Rightarrow> npfloat" where
  "np_div (Fin a) (Fin b) =
     (if b = 0 then (if a = 0 then NaN else if 0 < a then PInf else NInf)
      else Fin (a / b))"
| "np_div NaN _ = NaN"
| "np_div _ NaN = NaN"
| "np_div (Fin a) PInf = Fin 0"
| "np_div (Fin a) NInf = Fin 0"
| "np_div PInf (Fin b) = (if 0 \<le> b then PInf else NInf)"
| "np_div NInf (Fin b) = (if 0 \<le> b then NInf else PInf)"
| "np_div PInf PInf = NaN"
| "np_div PInf NInf = NaN"
| "np_div NInf PInf = NaN"
| "np_div NInf NInf = NaN"

fun np_sqrt :: "npfloat \<Rightarrow> npfloat" where
  "np_sqrt (Fin a) = (if a < 0 then NaN else Fin (sqrt a))"
| "np_sqrt PInf = PInf"
| "np_sqrt NInf = NaN"
| "np_sqrt NaN = NaN"

text \<open>\<open>a ** 2\<close> and \<open>np.sum\<close>.\<close>

definition np_square :: "npfloat \<Rightarrow> npfloat" where
  "np_square a = np_mul a a"

definition np_sum :: "npfloat list \<Rightarrow> npfloat" where
  "np_sum xs = foldl np_add (Fin 0) xs"

fun is_finite :: "npfloat \<Rightarrow> bool" where
  "is_finite (Fin a) = True"
| "is_finite _ = False"

subsection \<open>One-dimensional arrays\<close>

text \<open>
  An elementwise operation on two one-dimensional arrays needs equal lengths, or
  one array of length 1, which is broadcast; otherwise NumPy raises ValueError.
\<close>

definition broadcast2 ::
  "(npfloat \<Rightarrow> npfloat \<Rightarrow> npfloat) \<Rightarrow> npfloat list \<Rightarrow> npfloat list \<Rightarrow> error + npfloat list" where
  "broadcast2 f a b =
     (if length a = length b then Inr (map2 f a b)
      else if length a = 1 then Inr (map (f (hd a)) b)
      else if length b = 1 then Inr (map (\<lambda>u. f u (hd b)) a)
      else Inl ValueError)"

text \<open>The standard deviation \<open>s\<close>: one number for all points, or one per point.\<close>

datatype sigma = Uniform npfloat | PerPoint "npfloat list"

fun div_sigma :: "npfloat list \<Rightarrow> sigma \<Rightarrow> error + npfloat list" where
  "div_sigma d (Uniform s) = Inr (map (\<lambda>u. np_div u s) d)"
| "div_sigma d (PerPoint ss) = broadcast2 np_div d ss"

subsection \<open>Residuals and chi squared\<close>

type_synonym model = "npfloat list \<Rightarrow> npfloat list \<Rightarrow> npfloat list"

text \<open>\<^verbatim>\<open>return (y - func(p, x)) / s\<close>\<close>

definition residuals ::
  "npfloat list \<Rightarrow> model \<Rightarrow> npfloat list \<Rightarrow> npfloat list \<Rightarrow> sigma \<Rightarrow> error + npfloat list" where
  "residuals p func x y s =
     (case broadcast2 np_sub y (func p x) of
        Inl e \<Rightarrow> Inl e
      | Inr d \<Rightarrow> div_sigma d s)"

text \<open>\<^verbatim>\<open>return (observed - expected) / s\<close>\<close>

definition residuals_data :: "npfloat list \<Rightarrow> npfloat list \<Rightarrow> sigma \<Rightarrow> error + npfloat list" where
  "residuals_data observed expected s =
     (case broadcast2 np_sub observed expected of
        Inl e \<Rightarrow> Inl e
      | Inr d \<Rightarrow> div_sigma d s)"

text \<open>\<^verbatim>\<open>return np.sum(residuals_data(observed, expected, s)**2)\<close>\<close>

definition chi2 :: "npfloat list \<Rightarrow> npfloat list \<Rightarrow> sigma \<Rightarrow> error + npfloat" where
  "chi2 observed expected s =
     (case residuals_data observed expected s of
        Inl e \<Rightarrow> Inl e
      | Inr r \<Rightarrow> Inr (np_sum (map np_square r)))"

subsection \<open>The fit\<close>

text \<open>
  \<open>scipy.optimize.least_squares\<close> and \<open>np.linalg.inv\<close> are library code. They
  are parameters of the model: a solver takes the objective (the residuals as a
  function of the coefficients) and the initial guess, and returns the solution
  \<open>r.x\<close> with the Jacobian \<open>r.jac\<close> (one row per data point, one column per
  coefficient), or raises; the inversion returns the inverse of a square matrix or
  raises LinAlgError.
\<close>

type_synonym matrix = "npfloat list list"

record lsq_result =
  r_x :: "npfloat list"
  r_jac :: matrix

type_synonym solver =
  "(npfloat list \<Rightarrow> error + npfloat list) \<Rightarrow> npfloat list \<Rightarrow> error + lsq_result"

type_synonym inversion = "matrix \<Rightarrow> error + matrix"

text \<open>\<open>np.dot\<close> of two matrices given by their rows, and \<open>np.diag\<close>.\<close>

definition np_dot :: "matrix \<Rightarrow> matrix \<Rightarrow> matrix" where
  "np_dot a b = map (\<lambda>row. map (\<lambda>col. np_sum (map2 np_mul row col)) (transpose b)) a"

definition np_diag :: "matrix \<Rightarrow> npfloat list" where
  "np_diag m = map (\<lambda>i. m ! i ! i) [0..<length m]"

text \<open>
  \<^verbatim>\<open>
  r = opt.least_squares(residuals, p, args=(func, x, y, s))
  p_fit = r.x
  hessian = np.dot(r.jac.T, r.jac)
  K_fit = np.linalg.inv(hessian)
  unc_fit = np.sqrt(np.diag(K_fit))
  beta = np.sqrt(np.sum(residuals(p_fit, func, x, y)**2) / (x.size - len(p_fit)))
  unc_fit = unc_fit * beta
  K_fit = K_fit * beta
  chi = np.sum(residuals(p_fit, func, x, y, beta)**2) / (x.size - len(p_fit))
  return p_fit, chi, unc_fit
  \<close>
  The rescaled \<open>K_fit\<close> is not used again and is left out. The residuals for
  \<open>beta\<close> are taken with the default \<open>s = 1\<close>, whatever \<open>s\<close> the call was given.
\<close>

definition degrees_of_freedom :: "npfloat list \<Rightarrow> npfloat list \<Rightarrow> npfloat" where
  "degrees_of_freedom x p_fit = Fin (of_int (int (length x) - int (length p_fit)))"

definition fitting ::
  "solver \<Rightarrow> inversion \<Rightarrow> npfloat list \<Rightarrow> npfloat list \<Rightarrow> npfloat list \<Rightarrow> model \<Rightarrow> sigma
    \<Rightarrow> error + (npfloat list \<times> npfloat \<times> npfloat list)" where
  "fitting least_squares linalg_inv p x y func s =
     (case least_squares (\<lambda>q. residuals q func x y s) p of
        Inl e \<Rightarrow> Inl e
      | Inr r \<Rightarrow>
          (let p_fit = r_x r;
               hessian = np_dot (transpose (r_jac r)) (r_jac r)
           in case linalg_inv hessian of
                Inl e \<Rightarrow> Inl e
              | Inr K_fit \<Rightarrow>
                  (let unc_fit = map np_sqrt (np_diag K_fit)
                   in case residuals p_fit func x y (Uniform (Fin 1)) of
                        Inl e \<Rightarrow> Inl e
                      | Inr r1 \<Rightarrow>
                          (let beta = np_sqrt (np_div (np_sum (map np_square r1))
                                                 (degrees_of_freedom x p_fit));
                               unc_fit = map (\<lambda>u. np_mul u beta) unc_fit
                           in case residuals p_fit func x y (Uniform beta) of
                                Inl e \<Rightarrow> Inl e
                              | Inr r2 \<Rightarrow>
                                  (let chi = np_div (np_sum (map np_square r2))
                                               (degrees_of_freedom x p_fit)
                                   in Inr (p_fit, chi, unc_fit))))))"

text \<open>
  \<^verbatim>\<open>
  r = opt.least_squares(residuals, p, args=(func, x, y, s))
  p_fit = r.x
  return p_fit
  \<close>
\<close>

definition fitting_params_only ::
  "solver \<Rightarrow> npfloat list \<Rightarrow> npfloat list \<Rightarrow> npfloat list \<Rightarrow> model \<Rightarrow> sigma
    \<Rightarrow> error + npfloat list" where
  "fitting_params_only least_squares p x y func s =
     (case least_squares (\<lambda>q. residuals q func x y s) p of
        Inl e \<Rightarrow> Inl e
      | Inr r \<Rightarrow> Inr (r_x r))"

declare searchsorted_left.simps [simp del]

section \<open>Properties of the fitter\<close>

subsection \<open>Sums of finite values, and the unit sigma\<close>

lemma foldl_np_add_Fin: "foldl np_add (Fin a) (map Fin xs) = Fin (a + sum_list xs)"
  by (induction xs arbitrary: a) (simp_all add: add.assoc)

lemma np_sum_Fin: "np_sum (map Fin xs) = Fin (sum_list xs)"
  by (simp add: np_sum_def foldl_np_add_Fin)

lemma np_div_one: "np_div v (Fin 1) = v"
  by (cases v) simp_all

lemma div_sigma_one: "div_sigma d (Uniform (Fin 1)) = Inr d"
  by (simp add: np_div_one)

lemma residuals_unit:
  "residuals p func x y (Uniform (Fin 1)) = broadcast2 np_sub y (func p x)"
  by (cases "broadcast2 np_sub y (func p x)") (simp_all add: residuals_def np_div_one)

lemma residuals_uniform:
  "residuals p func x y (Uniform (Fin 1)) = Inr d
   \<Longrightarrow> residuals p func x y (Uniform b) = Inr (map (\<lambda>u. np_div u b) d)"
  by (simp add: residuals_unit) (simp add: residuals_def)

lemma broadcast2_error: "broadcast2 f a b = Inl e \<Longrightarrow> e = ValueError"
  by (simp add: broadcast2_def split: if_splits)

lemma residuals_error: "residuals p func x y s = Inl e \<Longrightarrow> e = ValueError"
  by (cases s) (auto simp: residuals_def split: sum.splits dest: broadcast2_error)

lemma np_div_zero_not_finite: "\<not> is_finite (np_div a (Fin 0))"
  by (cases a) simp_all

lemma sum_squares_Fin:
  "np_sum (map np_square (map Fin ds)) = Fin (\<Sum>d\<leftarrow>ds. d\<^sup>2)"
proof -
  have "map np_square (map Fin ds) = map Fin (map (\<lambda>d. d\<^sup>2) ds)"
    by (simp add: np_square_def power2_eq_square)
  then show ?thesis
    by (simp only: np_sum_Fin)
qed

lemma sum_squares_scaled:
  assumes "b \<noteq> 0"
  shows "np_sum (map np_square (map (\<lambda>u. np_div u (Fin b)) (map Fin ds)))
         = Fin ((\<Sum>d\<leftarrow>ds. d\<^sup>2) / b\<^sup>2)"
proof -
  have "map np_square (map (\<lambda>u. np_div u (Fin b)) (map Fin ds))
        = map Fin (map (\<lambda>d. d\<^sup>2 / b\<^sup>2) ds)"
    using assms by (simp add: np_square_def power2_eq_square)
  moreover have "(\<Sum>d\<leftarrow>ds. d\<^sup>2 / b\<^sup>2) = (\<Sum>d\<leftarrow>ds. d\<^sup>2) / b\<^sup>2"
    by (induction ds) (simp_all add: add_divide_distrib)
  ultimately show ?thesis
    by (simp only: np_sum_Fin)
qed

subsection \<open>Swapping the operands of the difference\<close>

lemma np_sub_swap: "np_sub a b = np_neg (np_sub b a)"
  by (cases a; cases b) (simp_all add: np_sub_def)

lemma np_div_neg: "np_div (np_neg a) s = np_neg (np_div a s)"
  by (cases a; cases s) simp_all

lemma np_square_neg: "np_square (np_neg a) = np_square a"
  by (cases a) (simp_all add: np_square_def)

lemma map2_sub_swap:
  "length a = length b \<Longrightarrow> map2 np_sub a b = map np_neg (map2 np_sub b a)"
proof (induction a b rule: list_induct2)
  case Nil
  then show ?case by simp
next
  case (Cons u us v vs)
  have "np_sub u v = np_neg (np_sub v u)" by (rule np_sub_swap)
  with Cons show ?case by simp
qed

lemma map_sub_swap_left: "map (np_sub u) b = map np_neg (map (\<lambda>w. np_sub w u) b)"
proof (induction b)
  case Nil
  then show ?case by simp
next
  case (Cons v vs)
  have "np_sub u v = np_neg (np_sub v u)" by (rule np_sub_swap)
  with Cons show ?case by simp
qed

lemma map_sub_swap_right: "map (\<lambda>w. np_sub w u) a = map np_neg (map (np_sub u) a)"
proof (induction a)
  case Nil
  then show ?case by simp
next
  case (Cons v vs)
  have "np_sub v u = np_neg (np_sub u v)" by (rule np_sub_swap)
  with Cons show ?case by simp
qed

lemma broadcast2_sub_swap:
  "broadcast2 np_sub a b = map_sum id (map np_neg) (broadcast2 np_sub b a)"
proof -
  consider "length a = length b" | "length a \<noteq> length b" "length a = 1"
    | "length a \<noteq> length b" "length a \<noteq> 1" "length b = 1"
    | "length a \<noteq> length b" "length a \<noteq> 1" "length b \<noteq> 1"
    by blast
  then show ?thesis
  proof cases
    case 1
    have "map2 np_sub a b = map np_neg (map2 np_sub b a)"
      by (rule map2_sub_swap[OF 1])
    then show ?thesis using 1 by (simp add: broadcast2_def del: map_map)
  next
    case 2
    have "map (np_sub (hd a)) b = map np_neg (map (\<lambda>w. np_sub w (hd a)) b)"
      by (rule map_sub_swap_left)
    then show ?thesis
      using 2 by (simp add: broadcast2_def del: map_map)
  next
    case 3
    have "map (\<lambda>w. np_sub w (hd b)) a = map np_neg (map (np_sub (hd b)) a)"
      by (rule map_sub_swap_right)
    then show ?thesis
      using 3 by (simp add: broadcast2_def del: map_map)
  next
    case 4
    then show ?thesis
      by (simp add: broadcast2_def)
  qed
qed

lemma broadcast2_div_neg:
  "broadcast2 np_div (map np_neg d) ss = map_sum id (map np_neg) (broadcast2 np_div d ss)"
proof -
  have "map2 np_div (map np_neg d) ss = map np_neg (map2 np_div d ss)" if "length d = length ss"
    using that by (induction d ss rule: list_induct2) (simp_all add: np_div_neg)
  moreover have "hd (map np_neg d) = np_neg (hd d)" if "length d = 1"
    using that by (cases d) simp_all
  ultimately show ?thesis
    unfolding broadcast2_def by (auto simp: np_div_neg)
qed

lemma div_sigma_neg:
  "div_sigma (map np_neg d) s = map_sum id (map np_neg) (div_sigma d s)"
  by (cases s) (simp_all add: broadcast2_div_neg np_div_neg)

lemma square_map_neg: "map np_square (map np_neg r) = map np_square r"
  by (simp add: np_square_neg)

text \<open>
  C8. For all \<open>p\<close>, \<open>func\<close>, \<open>x\<close>, \<open>y\<close> and \<open>s\<close> (one number or one per point), the
  sum of the squares of \<open>residuals(p, func, x, y, s)\<close> is \<open>chi2(func(p, x), y, s)\<close>:
  both raise the same broadcasting error or both return the same number. The two
  differences \<open>y - func(p, x)\<close> and \<open>func(p, x) - y\<close> are each other's negation,
  and squaring removes the sign, also for infinities and NaN.
\<close>

theorem residuals_chi2:
  "(case residuals p func x y s of
      Inl e \<Rightarrow> Inl e
    | Inr r \<Rightarrow> Inr (np_sum (map np_square r))) = chi2 (func p x) y s"
proof (cases "broadcast2 np_sub y (func p x)")
  case (Inl e)
  then show ?thesis
    using broadcast2_sub_swap[of "func p x" y]
    by (simp add: residuals_def chi2_def residuals_data_def)
next
  case (Inr d)
  then have "broadcast2 np_sub (func p x) y = Inr (map np_neg d)"
    using broadcast2_sub_swap[of "func p x" y] by simp
  then show ?thesis
    using Inr div_sigma_neg[of d s]
    by (cases "div_sigma d s")
      (simp_all add: residuals_def chi2_def residuals_data_def square_map_neg del: map_map)
qed

subsection \<open>The reduced chi squared after rescaling\<close>

lemma fitting_unfold:
  assumes "least_squares (\<lambda>q. residuals q func x y s) p = Inr r"
      and "linalg_inv (np_dot (transpose (r_jac r)) (r_jac r)) = Inr K"
      and "residuals (r_x r) func x y (Uniform (Fin 1)) = Inr d"
  shows "fitting least_squares linalg_inv p x y func s =
     (let dof = degrees_of_freedom x (r_x r);
          beta = np_sqrt (np_div (np_sum (map np_square d)) dof)
      in Inr (r_x r,
              np_div (np_sum (map np_square (map (\<lambda>u. np_div u beta) d))) dof,
              map (\<lambda>u. np_mul u beta) (map np_sqrt (np_diag K))))"
  using assms residuals_uniform[OF assms(3)]
  by (simp add: fitting_def Let_def del: map_map)

lemma fitting_chi_one:
  assumes "least_squares (\<lambda>q. residuals q func x y s) p = Inr r"
      and "linalg_inv (np_dot (transpose (r_jac r)) (r_jac r)) = Inr K"
      and "residuals (r_x r) func x y (Uniform (Fin 1)) = Inr (map Fin ds)"
      and "length (r_x r) < length x"
      and "(\<Sum>d\<leftarrow>ds. d\<^sup>2) \<noteq> 0"
  shows "fitting least_squares linalg_inv p x y func s =
     Inr (r_x r, Fin 1,
          map (\<lambda>u. np_mul u (Fin (sqrt ((\<Sum>d\<leftarrow>ds. d\<^sup>2) / (real (length x) - real (length (r_x r)))))))
            (map np_sqrt (np_diag K)))"
proof -
  define S where "S = (\<Sum>d\<leftarrow>ds. d\<^sup>2)"
  define n where "n = real (length x) - real (length (r_x r))"
  have n: "0 < n" using assms(4) by (simp add: n_def)
  have dof: "degrees_of_freedom x (r_x r) = Fin n"
    by (simp add: degrees_of_freedom_def n_def)
  have "0 \<le> S" unfolding S_def by (induction ds) simp_all
  then have S: "0 < S" using assms(5) by (simp add: S_def)
  have q: "0 < S / n" using S n by simp
  have beta: "np_sqrt (np_div (np_sum (map np_square (map Fin ds))) (Fin n)) = Fin (sqrt (S / n))"
    using n q by (simp add: sum_squares_Fin S_def[symmetric] del: map_map)
  have b0: "sqrt (S / n) \<noteq> 0" using S n by simp
  have "(sqrt (S / n))\<^sup>2 = S / n" using q by simp
  then have "S / (sqrt (S / n))\<^sup>2 / n = 1" using S n by simp
  then have chi: "np_div (np_sum (map np_square (map (\<lambda>u. np_div u (Fin (sqrt (S / n)))) (map Fin ds)))) (Fin n) = Fin 1"
    using n by (simp add: sum_squares_scaled[OF b0] S_def[symmetric] del: map_map)
  have "fitting least_squares linalg_inv p x y func s =
     (let dof = degrees_of_freedom x (r_x r);
          beta = np_sqrt (np_div (np_sum (map np_square (map Fin ds))) dof)
      in Inr (r_x r,
              np_div (np_sum (map np_square (map (\<lambda>u. np_div u beta) (map Fin ds)))) dof,
              map (\<lambda>u. np_mul u beta) (map np_sqrt (np_diag K))))"
    using assms(1,2,3) by (rule fitting_unfold)
  then show ?thesis
    unfolding Let_def dof beta chi S_def[symmetric] n_def[symmetric] .
qed

text \<open>
  C2. A call with \<open>s = 1\<close> in which the solver and the inversion succeed, the
  residuals at the solution are finite with a nonzero sum of squares, and there are
  more data points than coefficients: the rescaled sigma \<open>beta\<close> is the square root
  of that sum over \<open>N - k\<close>, the residuals taken with \<open>s = beta\<close> have the sum of
  squares \<open>N - k\<close>, so that the reduced chi squared is exactly 1, and 1 is the
  \<open>chi\<close> the call returns.
\<close>

theorem fitting_chi_uncalibrated:
  assumes "least_squares (\<lambda>q. residuals q func x y (Uniform (Fin 1))) p = Inr r"
      and "linalg_inv (np_dot (transpose (r_jac r)) (r_jac r)) = Inr K"
      and "residuals (r_x r) func x y (Uniform (Fin 1)) = Inr (map Fin ds)"
      and "length (r_x r) < length x"
      and "(\<Sum>d\<leftarrow>ds. d\<^sup>2) \<noteq> 0"
  shows "\<exists>beta r_beta unc_fit.
           beta = np_sqrt (np_div (np_sum (map np_square (map Fin ds))) (degrees_of_freedom x (r_x r)))
         \<and> residuals (r_x r) func x y (Uniform beta) = Inr r_beta
         \<and> np_div (np_sum (map np_square r_beta)) (degrees_of_freedom x (r_x r)) = Fin 1
         \<and> fitting least_squares linalg_inv p x y func (Uniform (Fin 1)) = Inr (r_x r, Fin 1, unc_fit)"
proof -
  let ?dof = "degrees_of_freedom x (r_x r)"
  let ?beta = "np_sqrt (np_div (np_sum (map np_square (map Fin ds))) ?dof)"
  let ?r_beta = "map (\<lambda>u. np_div u ?beta) (map Fin ds)"
  have res: "residuals (r_x r) func x y (Uniform ?beta) = Inr ?r_beta"
    using assms(3) by (rule residuals_uniform)
  have fit: "fitting least_squares linalg_inv p x y func (Uniform (Fin 1)) =
     Inr (r_x r, Fin 1,
          map (\<lambda>u. np_mul u (Fin (sqrt ((\<Sum>d\<leftarrow>ds. d\<^sup>2) / (real (length x) - real (length (r_x r)))))))
            (map np_sqrt (np_diag K)))"
    using assms by (rule fitting_chi_one)
  have "fitting least_squares linalg_inv p x y func (Uniform (Fin 1)) =
     (let dof = ?dof;
          beta = np_sqrt (np_div (np_sum (map np_square (map Fin ds))) dof)
      in Inr (r_x r,
              np_div (np_sum (map np_square (map (\<lambda>u. np_div u beta) (map Fin ds)))) dof,
              map (\<lambda>u. np_mul u beta) (map np_sqrt (np_diag K))))"
    using assms(1,2,3) by (rule fitting_unfold)
  with fit have "np_div (np_sum (map np_square ?r_beta)) ?dof = Fin 1"
    by (simp add: Let_def del: map_map)
  with res fit show ?thesis by blast
qed

theorem fitting_chi_uncalibrated_witness:
  "\<exists>unc_fit.
     fitting (\<lambda>objective p0. Inr \<lparr>r_x = [Fin 1], r_jac = [[Fin (- 3)], [Fin (- 4)]]\<rparr>)
       (\<lambda>h. case h of [[Fin a]] \<Rightarrow> if a = 0 then Inl LinAlgError else Inr [[Fin (1 / a)]] | _ \<Rightarrow> Inl LinAlgError)
       [Fin 0] [Fin 3, Fin 4] [Fin 7, Fin 1] (\<lambda>p x. map (np_mul (hd p)) x) (Uniform (Fin 1))
     = Inr ([Fin 1], Fin 1, unc_fit)"
  using fitting_chi_uncalibrated
    [of "\<lambda>objective p0. Inr \<lparr>r_x = [Fin 1], r_jac = [[Fin (- 3)], [Fin (- 4)]]\<rparr>"
        "\<lambda>p x. map (np_mul (hd p)) x" "[Fin 3, Fin 4]" "[Fin 7, Fin 1]" "[Fin 0]"
        "\<lparr>r_x = [Fin 1], r_jac = [[Fin (- 3)], [Fin (- 4)]]\<rparr>"
        "\<lambda>h. case h of [[Fin a]] \<Rightarrow> if a = 0 then Inl LinAlgError else Inr [[Fin (1 / a)]] | _ \<Rightarrow> Inl LinAlgError"
        "[[Fin (1 / 25)]]" "[4, - 3]"]
  by (simp add: np_dot_def np_sum_def residuals_def broadcast2_def np_sub_def)

text \<open>
  C7. The same holds for every sigma \<open>s\<close> the call is given: \<open>s\<close> reaches the
  solver only, \<open>beta\<close> is computed from the residuals with \<open>s = 1\<close>, and the
  returned \<open>chi\<close> is 1 whenever the solver and the inversion succeed, \<open>N > k\<close> and
  the unweighted residuals at the solution are finite with a nonzero sum of squares.
\<close>

theorem fitting_chi_one_for_every_sigma:
  assumes "least_squares (\<lambda>q. residuals q func x y s) p = Inr r"
      and "linalg_inv (np_dot (transpose (r_jac r)) (r_jac r)) = Inr K"
      and "residuals (r_x r) func x y (Uniform (Fin 1)) = Inr (map Fin ds)"
      and "length (r_x r) < length x"
      and "(\<Sum>d\<leftarrow>ds. d\<^sup>2) \<noteq> 0"
  shows "\<exists>unc_fit. fitting least_squares linalg_inv p x y func s = Inr (r_x r, Fin 1, unc_fit)"
proof -
  have "fitting least_squares linalg_inv p x y func s =
     Inr (r_x r, Fin 1,
          map (\<lambda>u. np_mul u (Fin (sqrt ((\<Sum>d\<leftarrow>ds. d\<^sup>2) / (real (length x) - real (length (r_x r)))))))
            (map np_sqrt (np_diag K)))"
    using assms by (rule fitting_chi_one)
  then show ?thesis by blast
qed

theorem fitting_chi_one_for_every_sigma_witness:
  "\<exists>unc_fit.
     fitting (\<lambda>objective p0. Inr \<lparr>r_x = [Fin 1], r_jac = [[Fin (- 3 / 2)], [Fin (- 2)]]\<rparr>)
       (\<lambda>h. case h of [[Fin a]] \<Rightarrow> if a = 0 then Inl LinAlgError else Inr [[Fin (1 / a)]] | _ \<Rightarrow> Inl LinAlgError)
       [Fin 0] [Fin 3, Fin 4] [Fin 7, Fin 1] (\<lambda>p x. map (np_mul (hd p)) x) (Uniform (Fin 2))
     = Inr ([Fin 1], Fin 1, unc_fit)"
  using fitting_chi_one_for_every_sigma
    [of "\<lambda>objective p0. Inr \<lparr>r_x = [Fin 1], r_jac = [[Fin (- 3 / 2)], [Fin (- 2)]]\<rparr>"
        "\<lambda>p x. map (np_mul (hd p)) x" "[Fin 3, Fin 4]" "[Fin 7, Fin 1]" "Uniform (Fin 2)" "[Fin 0]"
        "\<lparr>r_x = [Fin 1], r_jac = [[Fin (- 3 / 2)], [Fin (- 2)]]\<rparr>"
        "\<lambda>h. case h of [[Fin a]] \<Rightarrow> if a = 0 then Inl LinAlgError else Inr [[Fin (1 / a)]] | _ \<Rightarrow> Inl LinAlgError"
        "[[Fin (4 / 25)]]" "[4, - 3]"]
  by (simp add: np_dot_def np_sum_def residuals_def broadcast2_def np_sub_def)

subsection \<open>No test of the degrees of freedom\<close>

text \<open>
  C1, as the code has it. \<open>fitting\<close> does not compare the number of data points with
  the number of coefficients and raises no error of its own: an error of \<open>fitting\<close> is
  the solver's, the inversion's, or the ValueError of arrays that do not broadcast. With
  \<open>N \<le> k\<close>, once the solver and the inversion have succeeded and the residuals at
  the solution can be computed, the call returns a triple; with \<open>N = k\<close> the
  returned \<open>chi\<close> is the quotient of a division by zero, NaN or an infinity.
\<close>

theorem fitting_no_degrees_of_freedom_check:
  "(fitting least_squares linalg_inv p x y func s = Inl e \<longrightarrow>
      least_squares (\<lambda>q. residuals q func x y s) p = Inl e
      \<or> (\<exists>r. least_squares (\<lambda>q. residuals q func x y s) p = Inr r
             \<and> (linalg_inv (np_dot (transpose (r_jac r)) (r_jac r)) = Inl e \<or> e = ValueError)))
   \<and> (least_squares (\<lambda>q. residuals q func x y s) p = Inr r
        \<and> linalg_inv (np_dot (transpose (r_jac r)) (r_jac r)) = Inr K
        \<and> residuals (r_x r) func x y (Uniform (Fin 1)) = Inr d
        \<and> length x \<le> length (r_x r) \<longrightarrow>
      (\<exists>chi unc_fit.
           fitting least_squares linalg_inv p x y func s = Inr (r_x r, chi, unc_fit)
         \<and> (length x = length (r_x r) \<longrightarrow> \<not> is_finite chi)))"
proof (intro conjI impI)
  assume "fitting least_squares linalg_inv p x y func s = Inl e"
  then show "least_squares (\<lambda>q. residuals q func x y s) p = Inl e
      \<or> (\<exists>r. least_squares (\<lambda>q. residuals q func x y s) p = Inr r
             \<and> (linalg_inv (np_dot (transpose (r_jac r)) (r_jac r)) = Inl e \<or> e = ValueError))"
    unfolding fitting_def Let_def
    by (auto split: sum.splits dest: residuals_error)
next
  assume a: "least_squares (\<lambda>q. residuals q func x y s) p = Inr r
        \<and> linalg_inv (np_dot (transpose (r_jac r)) (r_jac r)) = Inr K
        \<and> residuals (r_x r) func x y (Uniform (Fin 1)) = Inr d
        \<and> length x \<le> length (r_x r)"
  then have a1: "least_squares (\<lambda>q. residuals q func x y s) p = Inr r"
    and a2: "linalg_inv (np_dot (transpose (r_jac r)) (r_jac r)) = Inr K"
    and a3: "residuals (r_x r) func x y (Uniform (Fin 1)) = Inr d"
    by simp_all
  have "degrees_of_freedom x (r_x r) = Fin 0" if "length x = length (r_x r)"
    using that by (simp add: degrees_of_freedom_def)
  moreover have "fitting least_squares linalg_inv p x y func s =
     (let dof = degrees_of_freedom x (r_x r);
          beta = np_sqrt (np_div (np_sum (map np_square d)) dof)
      in Inr (r_x r,
              np_div (np_sum (map np_square (map (\<lambda>u. np_div u beta) d))) dof,
              map (\<lambda>u. np_mul u beta) (map np_sqrt (np_diag K))))"
    using a1 a2 a3 by (rule fitting_unfold)
  ultimately show "\<exists>chi unc_fit.
           fitting least_squares linalg_inv p x y func s = Inr (r_x r, chi, unc_fit)
         \<and> (length x = length (r_x r) \<longrightarrow> \<not> is_finite chi)"
    using np_div_zero_not_finite by (auto simp: Let_def)
qed

theorem fitting_no_degrees_of_freedom_check_witness:
  "fitting (\<lambda>objective p0. Inl SolverError)
       (\<lambda>h. case h of [[Fin a]] \<Rightarrow> if a = 0 then Inl LinAlgError else Inr [[Fin (1 / a)]] | _ \<Rightarrow> Inl LinAlgError)
       [Fin 0] [Fin 2] [Fin 6] (\<lambda>p x. map (np_mul (hd p)) x) (Uniform (Fin 1))
     = Inl SolverError
   \<and> (\<exists>chi unc_fit.
     fitting (\<lambda>objective p0. Inr \<lparr>r_x = [Fin 3], r_jac = [[Fin (- 2)]]\<rparr>)
       (\<lambda>h. case h of [[Fin a]] \<Rightarrow> if a = 0 then Inl LinAlgError else Inr [[Fin (1 / a)]] | _ \<Rightarrow> Inl LinAlgError)
       [Fin 0] [Fin 2] [Fin 6] (\<lambda>p x. map (np_mul (hd p)) x) (Uniform (Fin 1))
     = Inr ([Fin 3], chi, unc_fit) \<and> \<not> is_finite chi)"
proof -
  have a: "fitting (\<lambda>objective p0. Inl SolverError)
       (\<lambda>h. case h of [[Fin a]] \<Rightarrow> if a = 0 then Inl LinAlgError else Inr [[Fin (1 / a)]] | _ \<Rightarrow> Inl LinAlgError)
       [Fin 0] [Fin 2] [Fin 6] (\<lambda>p x. map (np_mul (hd p)) x) (Uniform (Fin 1))
     = Inl SolverError"
    using fitting_no_degrees_of_freedom_check
      [where least_squares = "\<lambda>objective p0. Inl SolverError" and e = SolverError
         and linalg_inv = "\<lambda>h. case h of [[Fin a]] \<Rightarrow> if a = 0 then Inl LinAlgError else Inr [[Fin (1 / a)]] | _ \<Rightarrow> Inl LinAlgError"
         and p = "[Fin 0]" and x = "[Fin 2]" and y = "[Fin 6]"
         and func = "\<lambda>p x. map (np_mul (hd p)) x" and s = "Uniform (Fin 1)"]
    by (simp add: fitting_def)
  have b: "\<exists>chi unc_fit.
     fitting (\<lambda>objective p0. Inr \<lparr>r_x = [Fin 3], r_jac = [[Fin (- 2)]]\<rparr>)
       (\<lambda>h. case h of [[Fin a]] \<Rightarrow> if a = 0 then Inl LinAlgError else Inr [[Fin (1 / a)]] | _ \<Rightarrow> Inl LinAlgError)
       [Fin 0] [Fin 2] [Fin 6] (\<lambda>p x. map (np_mul (hd p)) x) (Uniform (Fin 1))
     = Inr ([Fin 3], chi, unc_fit) \<and> \<not> is_finite chi"
    using fitting_no_degrees_of_freedom_check
      [where least_squares = "\<lambda>objective p0. Inr \<lparr>r_x = [Fin 3], r_jac = [[Fin (- 2)]]\<rparr>"
         and linalg_inv = "\<lambda>h. case h of [[Fin a]] \<Rightarrow> if a = 0 then Inl LinAlgError else Inr [[Fin (1 / a)]] | _ \<Rightarrow> Inl LinAlgError"
         and p = "[Fin 0]" and x = "[Fin 2]" and y = "[Fin 6]"
         and func = "\<lambda>p x. map (np_mul (hd p)) x" and s = "Uniform (Fin 1)"
         and r = "\<lparr>r_x = [Fin 3], r_jac = [[Fin (- 2)]]\<rparr>" and K = "[[Fin (1 / 4)]]"
         and d = "[Fin 0]"]
    by (simp add: np_dot_def np_sum_def residuals_def broadcast2_def np_sub_def)
  from a b show ?thesis by (rule conjI)
qed

text \<open>
  One data point and one coefficient, fitted exactly by \<open>y = 2 x\<close>: the sum of squares
  and the degrees of freedom are both zero, \<open>beta\<close> is \<open>0 / 0\<close>, and the call
  returns NaN for \<open>chi\<close> and for the uncertainty instead of failing.
\<close>

theorem fitting_degrees_of_freedom_counterexample:
  "fitting (\<lambda>objective p0. Inr \<lparr>r_x = [Fin 2], r_jac = [[Fin (- 1)]]\<rparr>)
     (\<lambda>h. case h of [[Fin a]] \<Rightarrow> if a = 0 then Inl LinAlgError else Inr [[Fin (1 / a)]] | _ \<Rightarrow> Inl LinAlgError)
     [Fin 0] [Fin 1] [Fin 2] (\<lambda>p x. map (np_mul (hd p)) x) (Uniform (Fin 1))
   = Inr ([Fin 2], NaN, [NaN])"
  by (simp add: fitting_def residuals_def broadcast2_def np_sub_def np_dot_def np_sum_def
      np_diag_def np_square_def degrees_of_freedom_def)

subsection \<open>The fit that returns the coefficients only\<close>

lemma example_fit:
  "fitting (\<lambda>objective p0. Inr \<lparr>r_x = [Fin 1], r_jac = [[Fin (- 3)], [Fin (- 4)]]\<rparr>)
       (\<lambda>h. case h of [[Fin a]] \<Rightarrow> if a = 0 then Inl LinAlgError else Inr [[Fin (1 / a)]] | _ \<Rightarrow> Inl LinAlgError)
       [Fin 0] [Fin 3, Fin 4] [Fin 7, Fin 1] (\<lambda>p x. map (np_mul (hd p)) x) (Uniform (Fin 1))
     = Inr ([Fin 1], Fin 1, [Fin 1])"
proof -
  have "sqrt 25 = 5" by (rule real_sqrt_unique) simp_all
  then show ?thesis
  by (simp add: fitting_def residuals_def broadcast2_def np_sub_def np_dot_def np_sum_def
      np_diag_def np_square_def degrees_of_freedom_def real_sqrt_divide Let_def)
qed

text \<open>
  C10. \<open>fitting_params_only\<close> is the solver step alone: it returns the solver's
  \<open>r.x\<close>, or the solver's error. Whenever \<open>fitting\<close> returns a triple on the same
  input, the first component of the triple is what \<open>fitting_params_only\<close> returns.
\<close>

theorem fitting_params_only_same_p_fit:
  "fitting_params_only least_squares p x y func s
     = map_sum id r_x (least_squares (\<lambda>q. residuals q func x y s) p)
   \<and> (fitting least_squares linalg_inv p x y func s = Inr (p_fit, chi, unc_fit)
        \<longrightarrow> fitting_params_only least_squares p x y func s = Inr p_fit)"
  unfolding fitting_def fitting_params_only_def Let_def
  by (auto split: sum.splits)

theorem fitting_params_only_same_p_fit_witness:
  "fitting (\<lambda>objective p0. Inr \<lparr>r_x = [Fin 1], r_jac = [[Fin (- 3)], [Fin (- 4)]]\<rparr>)
       (\<lambda>h. case h of [[Fin a]] \<Rightarrow> if a = 0 then Inl LinAlgError else Inr [[Fin (1 / a)]] | _ \<Rightarrow> Inl LinAlgError)
       [Fin 0] [Fin 3, Fin 4] [Fin 7, Fin 1] (\<lambda>p x. map (np_mul (hd p)) x) (Uniform (Fin 1))
     = Inr ([Fin 1], Fin 1, [Fin 1])
   \<and> fitting_params_only (\<lambda>objective p0. Inr \<lparr>r_x = [Fin 1], r_jac = [[Fin (- 3)], [Fin (- 4)]]\<rparr>)
       [Fin 0] [Fin 3, Fin 4] [Fin 7, Fin 1] (\<lambda>p x. map (np_mul (hd p)) x) (Uniform (Fin 1))
     = Inr [Fin 1]"
  using example_fit
    fitting_params_only_same_p_fit
      [of "\<lambda>objective p0. Inr \<lparr>r_x = [Fin 1], r_jac = [[Fin (- 3)], [Fin (- 4)]]\<rparr>"
          "[Fin 0]" "[Fin 3, Fin 4]" "[Fin 7, Fin 1]" "\<lambda>p x. map (np_mul (hd p)) x"
          "Uniform (Fin 1)"
          "\<lambda>h. case h of [[Fin a]] \<Rightarrow> if a = 0 then Inl LinAlgError else Inr [[Fin (1 / a)]] | _ \<Rightarrow> Inl LinAlgError"
          "[Fin 1]" "Fin 1" "[Fin 1]"]
  by (simp del: fitting_params_only_def)

section \<open>Properties of the array search\<close>

text \<open>
  On a sorted array the binary search returns the insertion point: every element
  before it is less than the value, and no element from it on is.
\<close>

lemma searchsorted_left_insertion:
  assumes "sorted a" and "lo \<le> hi" and "hi \<le> length a"
      and "\<forall>i<lo. a ! i < v" and "\<forall>i. hi \<le> i \<and> i < length a \<longrightarrow> v \<le> a ! i"
  shows "lo \<le> searchsorted_left a v lo hi \<and> searchsorted_left a v lo hi \<le> hi
       \<and> (\<forall>i<searchsorted_left a v lo hi. a ! i < v)
       \<and> (\<forall>i. searchsorted_left a v lo hi \<le> i \<and> i < length a \<longrightarrow> v \<le> a ! i)"
  using assms
proof (induction a v lo hi rule: searchsorted_left.induct)
  case (1 a v lo hi)
  show ?case
  proof (cases "lo < hi")
    case False
    with "1.prems" have "lo = hi" by simp
    with "1.prems" False show ?thesis
      by (simp add: searchsorted_left.simps[of a v hi hi])
  next
    case True
    define mid where "mid = lo + (hi - lo) div 2"
    have mid: "lo \<le> mid" "mid < hi" using True by (simp_all add: mid_def)
    show ?thesis
    proof (cases "a ! mid < v")
      case less: True
      have below: "\<forall>i<mid + 1. a ! i < v"
      proof (intro allI impI)
        fix i assume "i < mid + 1"
        then have "i \<le> mid" by simp
        moreover have "mid < length a" using mid "1.prems"(3) by simp
        ultimately have "a ! i \<le> a ! mid"
          using "1.prems"(1) by (simp add: sorted_iff_nth_mono)
        with less show "a ! i < v" by simp
      qed
      have step: "searchsorted_left a v lo hi = searchsorted_left a v (mid + 1) hi"
        using True less by (subst searchsorted_left.simps) (simp add: mid_def Let_def)
      have "mid + 1 \<le> searchsorted_left a v (mid + 1) hi \<and> searchsorted_left a v (mid + 1) hi \<le> hi
       \<and> (\<forall>i<searchsorted_left a v (mid + 1) hi. a ! i < v)
       \<and> (\<forall>i. searchsorted_left a v (mid + 1) hi \<le> i \<and> i < length a \<longrightarrow> v \<le> a ! i)"
        using "1.IH"(1)[OF True mid_def less "1.prems"(1) _ "1.prems"(3) below "1.prems"(5)] mid
        by simp
      with mid show ?thesis unfolding step by simp
    next
      case geq: False
      have above: "\<forall>i. mid \<le> i \<and> i < length a \<longrightarrow> v \<le> a ! i"
      proof (intro allI impI)
        fix i assume "mid \<le> i \<and> i < length a"
        then have "a ! mid \<le> a ! i"
          using "1.prems"(1) by (simp add: sorted_iff_nth_mono)
        with geq show "v \<le> a ! i" by simp
      qed
      have step: "searchsorted_left a v lo hi = searchsorted_left a v lo mid"
        using True geq by (subst searchsorted_left.simps) (simp add: mid_def Let_def)
      have "lo \<le> searchsorted_left a v lo mid \<and> searchsorted_left a v lo mid \<le> mid
       \<and> (\<forall>i<searchsorted_left a v lo mid. a ! i < v)
       \<and> (\<forall>i. searchsorted_left a v lo mid \<le> i \<and> i < length a \<longrightarrow> v \<le> a ! i)"
        using "1.IH"(2)[OF True mid_def geq "1.prems"(1) mid(1) _ "1.prems"(4) above] mid "1.prems"(3)
        by simp
      with mid show ?thesis unfolding step by simp
    qed
  qed
qed

lemma find_nearest_index_insertion:
  assumes "sorted a"
  shows "find_nearest_index v a \<le> length a
       \<and> (\<forall>i<find_nearest_index v a. a ! i < v)
       \<and> (\<forall>i. find_nearest_index v a \<le> i \<and> i < length a \<longrightarrow> v \<le> a ! i)"
  using searchsorted_left_insertion[OF assms, of 0 "length a" v]
  by (simp add: find_nearest_index_def)

text \<open>
  C9. The docstring of \<open>find_nearest_index\<close> promises the index of the closest element.
  The function returns the insertion point of \<open>np.searchsorted\<close>: searching 1 in
  \<open>[0, 10]\<close> gives index 1, whose element 10 is farther from 1 than the element 0 at
  index 0; searching 11 gives index 2, which is not an index of the array.
\<close>

theorem find_nearest_index_is_insertion_point:
  "find_nearest_index 1 [0, 10] = 1
   \<and> \<bar>[0, 10 :: real] ! 0 - 1\<bar> < \<bar>[0, 10 :: real] ! 1 - 1\<bar>
   \<and> find_nearest_index 11 [0, 10] = 2"
  by (simp add: find_nearest_index_def searchsorted_left.simps)

section \<open>Properties of the rounding\<close>

subsection \<open>Nearest integers and decimal exponents\<close>

lemma rint_lower: "x - 1 / 2 \<le> of_int (rint x)"
  unfolding rint_def Let_def by (auto; linarith)

lemma rint_upper: "of_int (rint x) \<le> x + 1 / 2"
  unfolding rint_def Let_def by (auto; linarith)



lemma rint_ge: "of_int k \<le> x \<Longrightarrow> k \<le> rint x"
  using rint_lower[of x] by linarith

lemma rint_le: "x \<le> of_int k \<Longrightarrow> rint x \<le> k"
  using rint_upper[of x] by linarith

lemma floor_log10_iff:
  "0 < u \<Longrightarrow> floor_log10 u = k \<longleftrightarrow> 10 powi k \<le> u \<and> u < 10 powi (k + 1)"
  unfolding floor_log10_def
  by (simp add: floor_log_eq_powr_iff powr_real_of_int' del: of_int_add)

lemma floor_log10_bounds:
  "0 < u \<Longrightarrow> 10 powi floor_log10 u \<le> u \<and> u < 10 powi (floor_log10 u + 1)"
  using floor_log10_iff[of u "floor_log10 u"] by simp


lemma pow10_pos: "0 < (10::real) powi k"
  by simp

lemma np_round_pos:
  assumes "10 powi (- d) \<le> u"
  shows "10 powi (- d) \<le> np_round u d"
proof -
  have "1 \<le> u * 10 powi d"
    using assms by (simp add: power_int_minus field_simps)
  then have "1 \<le> rint (u * 10 powi d)"
    using rint_ge[of 1 "u * 10 powi d"] by simp
  then have "(1::real) \<le> of_int (rint (u * 10 powi d))"
    by simp
  then show ?thesis
    unfolding np_round_def by (simp add: power_int_minus field_simps)
qed

lemma np_round_between:
  assumes "of_int a \<le> x * 10 powi d" and "x * 10 powi d \<le> of_int b"
  shows "of_int a / 10 powi d \<le> np_round x d \<and> np_round x d \<le> of_int b / 10 powi d"
proof -
  have "a \<le> rint (x * 10 powi d)" "rint (x * 10 powi d) \<le> b"
    using assms rint_ge rint_le by blast+
  then have "(of_int a :: real) \<le> of_int (rint (x * 10 powi d))"
    "(of_int (rint (x * 10 powi d)) :: real) \<le> of_int b"
    by simp_all
  then show ?thesis
    unfolding np_round_def by (simp add: divide_right_mono)
qed

lemma round_nonzero_not_one:
  assumes "0 < u" and "t u"
  shows "round_nonzero t v u =
    Inr (np_round v (- floor_log10 (np_round u (- floor_log10 u))), np_round u (- floor_log10 u))"
proof -
  have "10 powi floor_log10 u \<le> u"
    using floor_log10_bounds[OF assms(1)] by simp
  then have "10 powi floor_log10 u \<le> np_round u (- floor_log10 u)"
    using np_round_pos[of "- floor_log10 u" u] by simp
  then have "0 < np_round u (- floor_log10 u)"
    using pow10_pos[of "floor_log10 u"] by linarith
  then show ?thesis
    using assms by (simp add: round_nonzero_def leading_digit_not_one_def int_floor_log10_def Let_def)
qed

lemma leading_one_keeps_exponent:
  assumes "0 < u" and "leading_digit u = 1"
  shows "floor_log10 (np_round u (1 - floor_log10 u)) = floor_log10 u"
proof -
  define e where "e = floor_log10 u"
  define P where "P = (10::real) powi e"
  have P: "0 < P" by (simp add: P_def)
  have d: "(10::real) powi (1 - e) = 10 / P"
    by (simp add: P_def power_int_diff)
  have "1 \<le> u / P" "u / P < 2"
    using assms(2) unfolding leading_digit_def e_def[symmetric] P_def[symmetric]
    by linarith+
  then have "of_int 10 \<le> u * 10 powi (1 - e)" "u * 10 powi (1 - e) \<le> of_int 20"
    using P by (simp_all add: d field_simps)
  from np_round_between[OF this]
  have "P \<le> np_round u (1 - e)" "np_round u (1 - e) \<le> 2 * P"
    using P by (simp_all add: d field_simps)
  moreover have "10 powi (e + 1) = 10 * P"
    by (simp add: P_def power_int_add)
  ultimately have "10 powi e \<le> np_round u (1 - e) \<and> np_round u (1 - e) < 10 powi (e + 1)"
    using P by (simp add: P_def[symmetric])
  moreover have "0 < np_round u (1 - e)"
    using \<open>P \<le> np_round u (1 - e)\<close> P by linarith
  ultimately show ?thesis
    unfolding e_def[symmetric] using floor_log10_iff by blast
qed

lemma round_nonzero_one_branch:
  assumes "0 < u" and "\<not> t u"
  shows "round_nonzero t v u =
    Inr (np_round v (1 - floor_log10 (np_round u (1 - floor_log10 u))),
         np_round u (1 - floor_log10 u))"
proof -
  have "10 powi (- (1 - floor_log10 u)) \<le> u"
    using floor_log10_bounds[OF assms(1)] 
    by (simp add: power_int_diff) (smt (verit) pow10_pos)
  then have "10 powi (- (1 - floor_log10 u)) \<le> np_round u (1 - floor_log10 u)"
    by (rule np_round_pos)
  then have "0 < np_round u (1 - floor_log10 u)"
    using pow10_pos[of "- (1 - floor_log10 u)"] by linarith
  then show ?thesis
    using assms by (simp add: round_nonzero_def leading_digit_not_one_def int_floor_log10_def Let_def)
qed

lemma round_nonzero_one:
  assumes "0 < u" and "\<not> t u" and "leading_digit u = 1"
  shows "round_nonzero t v u =
    Inr (np_round v (1 - floor_log10 u), np_round u (1 - floor_log10 u))"
  using round_nonzero_one_branch[where t = t and u = u and v = v] assms(1,2)
    leading_one_keeps_exponent[OF assms(1,3)] by simp

lemma np_round_rounded: "rounded_to_place x k (np_round x (- k))"
proof -
  have P: "0 < (10::real) powi k" by simp
  have inv: "(10::real) powi (- k) = 1 / 10 powi k"
    by (simp add: power_int_minus field_simps)
  let ?m = "rint (x * 10 powi (- k))"
  have r: "np_round x (- k) = of_int ?m * 10 powi k"
    by (simp add: np_round_def inv)
  have "\<bar>of_int ?m - x * 10 powi (- k)\<bar> \<le> 1 / 2"
    using rint_lower[of "x * 10 powi (- k)"] rint_upper[of "x * 10 powi (- k)"] by linarith
  then have "\<bar>of_int ?m - x / 10 powi k\<bar> * 10 powi k \<le> 1 / 2 * 10 powi k"
    using P by (simp add: inv)
  moreover have "\<bar>of_int ?m - x / 10 powi k\<bar> * 10 powi k = \<bar>of_int ?m * 10 powi k - x\<bar>"
  proof -
    have "\<bar>of_int ?m - x / 10 powi k\<bar> * 10 powi k = \<bar>(of_int ?m - x / 10 powi k) * 10 powi k\<bar>"
      using P by (simp add: abs_mult)
    also have "(of_int ?m - x / 10 powi k) * 10 powi k = of_int ?m * 10 powi k - x"
      using P by (simp add: field_simps)
    finally show ?thesis .
  qed
  ultimately have "\<bar>np_round x (- k) - x\<bar> \<le> 10 powi k / 2"
    by (simp add: r)
  with r show ?thesis
    unfolding rounded_to_place_def by blast
qed

lemma leading_digit_range:
  assumes "0 < u"
  shows "1 \<le> leading_digit u \<and> leading_digit u \<le> 9"
proof -
  define P where "P = (10::real) powi floor_log10 u"
  have P: "0 < P" by (simp add: P_def)
  have "10 powi (floor_log10 u + 1) = 10 * P"
    by (simp add: P_def power_int_add)
  with floor_log10_bounds[OF assms] have "P \<le> u" "u < 10 * P"
    by (simp_all add: P_def)
  then have "1 \<le> u / P" "u / P < 10"
    using P by (simp_all add: field_simps)
  then have "1 \<le> \<lfloor>u / P\<rfloor>" "\<lfloor>u / P\<rfloor> < 10"
    by (simp_all add: le_floor_iff floor_less_iff)
  then show ?thesis
    by (simp add: leading_digit_def P_def)
qed

subsection \<open>The two branches of \<open>round_sig_fig_uncertainty\<close>\<close>

lemma round_nonzero_total:
  assumes "0 < u"
  shows "\<exists>v' u'. round_nonzero t v u = Inr (v', u')"
  using round_nonzero_not_one[where t = t and u = u and v = v]
    round_nonzero_one_branch[where t = t and u = u and v = v] assms
  by (cases "t u") auto

lemma round_nonzero_error:
  assumes "round_nonzero t v u = Inl e" and "u \<noteq> 0"
  shows "e = ValueError \<and> u < 0"
proof (cases "0 < u")
  case True
  then show ?thesis using round_nonzero_total[where t = t and u = u and v = v] assms by auto
next
  case False
  then have "u < 0" using assms(2) by simp
  then show ?thesis
    using assms(1) by (simp add: round_nonzero_def leading_digit_not_one_def int_floor_log10_def)
qed

subsection \<open>The loop over an array\<close>

lemma round_loop_step:
  "round_loop t vs us (i # rest) (vo, uo) =
     (if length us \<le> i then Inl IndexError
      else case round_sig_fig_uncertainty_scalar t (vs ! i) (us ! i) of
             Inl e \<Rightarrow> Inl e
           | Inr (v', u') \<Rightarrow> round_loop t vs us rest (vo @ [v'], uo @ [u']))"
  by (simp add: round_sig_fig_uncertainty_scalar_def)

lemma round_loop_success:
  assumes "\<forall>i\<in>set is. i < length us \<and> round_sig_fig_uncertainty_scalar t (vs ! i) (us ! i) = Inr (f i, g i)"
  shows "round_loop t vs us is (vo, uo) = Inr (vo @ map f is, uo @ map g is)"
  using assms
proof (induction "is" arbitrary: vo uo)
  case Nil
  then show ?case by simp
next
  case (Cons i rest)
  then show ?case
    by (simp only: round_loop_step) simp
qed

lemma round_loop_elements:
  assumes "round_loop t vs us is (vo, uo) = Inr out"
  shows "\<forall>i\<in>set is. i < length us \<and> (\<exists>v' u'. round_sig_fig_uncertainty_scalar t (vs ! i) (us ! i) = Inr (v', u'))"
  using assms
proof (induction "is" arbitrary: vo uo)
  case Nil
  then show ?case by simp
next
  case (Cons i rest)
  from Cons.prems have lt: "i < length us"
    by (simp only: round_loop_step split: if_splits) simp
  from Cons.prems lt obtain v' u' where
    el: "round_sig_fig_uncertainty_scalar t (vs ! i) (us ! i) = Inr (v', u')"
    and rest: "round_loop t vs us rest (vo @ [v'], uo @ [u']) = Inr out"
    by (simp only: round_loop_step) (auto split: sum.splits)
  from Cons.IH[OF rest] lt el show ?case by simp
qed

lemma round_loop_error_cause:
  assumes "round_loop t vs us is (vo, uo) = Inl e"
  shows "e = IndexError \<or> (e = ValueError \<and> (\<exists>i\<in>set is. i < length us \<and> us ! i < 0))"
  using assms
proof (induction "is" arbitrary: vo uo)
  case Nil
  then show ?case by simp
next
  case (Cons i rest)
  show ?case
  proof (cases "length us \<le> i")
    case True
    with Cons.prems show ?thesis by simp
  next
    case False
    show ?thesis
    proof (cases "round_sig_fig_uncertainty_scalar t (vs ! i) (us ! i)")
      case (Inl e')
      with False Cons.prems have e: "e' = e"
        by (simp only: round_loop_step) simp
      from Inl have "us ! i \<noteq> 0" "round_nonzero t (vs ! i) (us ! i) = Inl e'"
        by (auto simp: round_sig_fig_uncertainty_scalar_def split: if_splits)
      from round_nonzero_error[OF this(2,1)] e False show ?thesis by auto
    next
      case (Inr p)
      obtain v' u' where p: "p = (v', u')" by (cases p)
      from Inr False Cons.prems have "round_loop t vs us rest (vo @ [v'], uo @ [u']) = Inl e"
        by (simp only: round_loop_step p) simp
      from Cons.IH[OF this] show ?thesis by auto
    qed
  qed
qed

lemma array_result:
  assumes "round_sig_fig_uncertainty_array t vs us = Inr (vo, uo)"
  shows "length vs \<le> length us \<and> length vo = length vs \<and> length uo = length vs
       \<and> (\<forall>i<length vs. round_sig_fig_uncertainty_scalar t (vs ! i) (us ! i) = Inr (vo ! i, uo ! i))"
proof -
  let ?el = "\<lambda>i. round_sig_fig_uncertainty_scalar t (vs ! i) (us ! i)"
  let ?f = "\<lambda>i. fst (projr (?el i))" and ?g = "\<lambda>i. snd (projr (?el i))"
  have loop: "round_loop t vs us [0..<length vs] ([], []) = Inr (vo, uo)"
    using assms by (simp add: round_sig_fig_uncertainty_array_def)
  from round_loop_elements[OF loop]
  have el: "\<forall>i\<in>set [0..<length vs]. i < length us \<and> ?el i = Inr (?f i, ?g i)"
    by auto
  from round_loop_success[OF el, of "[]" "[]"] loop
  have out: "vo = map ?f [0..<length vs]" "uo = map ?g [0..<length vs]"
    by simp_all
  have "length vs \<le> length us"
  proof (cases "length vs")
    case 0
    then show ?thesis by simp
  next
    case (Suc k)
    then have "k \<in> set [0..<length vs]" by simp
    with el have "k < length us" by blast
    with Suc show ?thesis by simp
  qed
  moreover have "\<forall>i<length vs. ?el i = Inr (vo ! i, uo ! i)"
    using el by (simp add: out)
  ultimately show ?thesis by (simp add: out)
qed

lemma array_from_elements:
  assumes "length vs \<le> length us" and "length vo = length vs" and "length uo = length vs"
      and "\<forall>i<length vs. round_sig_fig_uncertainty_scalar t (vs ! i) (us ! i) = Inr (vo ! i, uo ! i)"
  shows "round_sig_fig_uncertainty_array t vs us = Inr (vo, uo)"
proof -
  have "\<forall>i\<in>set [0..<length vs]. i < length us
      \<and> round_sig_fig_uncertainty_scalar t (vs ! i) (us ! i) = Inr (vo ! i, uo ! i)"
    using assms(1,4) by simp
  from round_loop_success[OF this, of "[]" "[]"]
  have "round_sig_fig_uncertainty_array t vs us
      = Inr (map ((!) vo) [0..<length vs], map ((!) uo) [0..<length vs])"
    by (simp add: round_sig_fig_uncertainty_array_def)
  moreover have "map ((!) vo) [0..<length vs] = vo" "map ((!) uo) [0..<length vs] = uo"
    using map_nth[of vo] map_nth[of uo] assms(2,3) by simp_all
  ultimately show ?thesis by simp
qed

lemma array_success:
  assumes "length vs \<le> length us" and "\<forall>i<length vs. 0 \<le> us ! i"
  shows "\<exists>vo uo. round_sig_fig_uncertainty_array t vs us = Inr (vo, uo)"
proof -
  let ?el = "\<lambda>i. round_sig_fig_uncertainty_scalar t (vs ! i) (us ! i)"
  let ?f = "\<lambda>i. fst (projr (?el i))" and ?g = "\<lambda>i. snd (projr (?el i))"
  have "?el i = Inr (?f i, ?g i)" if "i < length vs" for i
  proof (cases "us ! i = 0")
    case True
    then show ?thesis by (simp add: round_sig_fig_uncertainty_scalar_def)
  next
    case False
    then have "0 < us ! i" using assms(2) that by (simp add: order_less_le)
    from round_nonzero_total[where t = t and v = "vs ! i", OF this] False show ?thesis
      by (auto simp: round_sig_fig_uncertainty_scalar_def)
  qed
  then have "\<forall>i\<in>set [0..<length vs]. i < length us \<and> ?el i = Inr (?f i, ?g i)"
    using assms(1) by simp
  from round_loop_success[OF this, of "[]" "[]"] show ?thesis
    by (simp add: round_sig_fig_uncertainty_array_def)
qed

lemma array_too_short:
  assumes "length us < length vs"
  shows "round_sig_fig_uncertainty_array t vs us = Inl IndexError
       \<or> (round_sig_fig_uncertainty_array t vs us = Inl ValueError \<and> (\<exists>i<length us. us ! i < 0))"
proof (cases "round_sig_fig_uncertainty_array t vs us")
  case (Inl e)
  then have "round_loop t vs us [0..<length vs] ([], []) = Inl e"
    by (simp add: round_sig_fig_uncertainty_array_def)
  from round_loop_error_cause[OF this] Inl show ?thesis by auto
next
  case (Inr p)
  obtain vo uo where "p = (vo, uo)" by (cases p)
  with Inr array_result[where t = t and vs = vs and us = us and vo = vo and uo = uo] assms
  show ?thesis by simp
qed

lemma round_loop_take:
  assumes "\<forall>i\<in>set is. i < n"
  shows "round_loop t vs (take n us) is out = round_loop t vs us is out"
  using assms
proof (induction "is" arbitrary: out)
  case Nil
  then show ?case by simp
next
  case (Cons i rest)
  obtain vo uo where out: "out = (vo, uo)" by (cases out)
  from Cons.prems have "i < n" by simp
  then have "(length (take n us) \<le> i) = (length us \<le> i)" "i < length us \<Longrightarrow> take n us ! i = us ! i"
    by auto
  with Cons show ?case
    unfolding out by (auto split: sum.splits)
qed

lemma array_take:
  "round_sig_fig_uncertainty_array t vs (take (length vs) us) = round_sig_fig_uncertainty_array t vs us"
  unfolding round_sig_fig_uncertainty_array_def
  by (rule round_loop_take) simp

subsection \<open>Worked examples\<close>

lemma example_leading_seven:
  "round_sig_fig_uncertainty_scalar exact_test 12.3456 0.07 = Inr (12.35, 0.07)"
proof -
  have e: "floor_log10 0.07 = - 2"
    by (simp add: floor_log10_iff)
  have ld: "leading_digit 0.07 \<noteq> 1"
    unfolding leading_digit_def e by simp
  have u: "np_round 0.07 (- (- 2)) = 0.07"
    by (simp add: np_round_def rint_def)
  have v: "np_round 12.3456 (- (- 2)) = 12.35"
    by (simp add: np_round_def rint_def Let_def)
  have "round_nonzero exact_test 12.3456 0.07 =
      Inr (np_round 12.3456 (- floor_log10 (np_round 0.07 (- floor_log10 0.07))),
           np_round 0.07 (- floor_log10 0.07))"
  proof (rule round_nonzero_not_one)
    show "0 < (0.07 :: real)" by simp
    show "exact_test 0.07" unfolding exact_test_def by (rule ld)
  qed
  then have r: "round_nonzero exact_test 12.3456 0.07 = Inr (12.35, 0.07)"
    unfolding e u v .
  have "(0.07::real) \<noteq> 0" by simp
  then show ?thesis
    unfolding round_sig_fig_uncertainty_scalar_def r by (simp only: if_False)
qed

lemma example_leading_one:
  "round_sig_fig_uncertainty_scalar exact_test 12.3456 0.012 = Inr (12.346, 0.012)"
proof -
  have e: "floor_log10 0.012 = - 2"
    by (simp add: floor_log10_iff)
  have ld: "leading_digit 0.012 = 1"
    unfolding leading_digit_def e by simp
  have u: "np_round 0.012 (1 - (- 2)) = 0.012"
    by (simp add: np_round_def rint_def)
  have v: "np_round 12.3456 (1 - (- 2)) = 12.346"
    by (simp add: np_round_def rint_def Let_def)
  have "round_nonzero exact_test 12.3456 0.012 =
      Inr (np_round 12.3456 (1 - floor_log10 0.012), np_round 0.012 (1 - floor_log10 0.012))"
  proof (rule round_nonzero_one)
    show "0 < (0.012 :: real)" by simp
    show "\<not> exact_test 0.012" unfolding exact_test_def ld by simp
    show "leading_digit 0.012 = 1" by (rule ld)
  qed
  then have r: "round_nonzero exact_test 12.3456 0.012 = Inr (12.346, 0.012)"
    unfolding e u v .
  have "(0.012::real) \<noteq> 0" by simp
  then show ?thesis
    unfolding round_sig_fig_uncertainty_scalar_def r by (simp only: if_False)
qed

lemma example_array:
  "round_sig_fig_uncertainty_array exact_test [5, 12.3456] [0, 0.07] = Inr ([5, 12.35], [0, 0.07])"
proof (rule array_from_elements)
  show "\<forall>i<length [5, 12.3456 :: real].
     round_sig_fig_uncertainty_scalar exact_test ([5, 12.3456] ! i) ([0, 0.07] ! i)
       = Inr ([5, 12.35] ! i, [0, 0.07] ! i)"
  proof (intro allI impI)
    fix i :: nat
    assume "i < length [5, 12.3456 :: real]"
    then have "i = 0 \<or> i = 1" by auto
    then show "round_sig_fig_uncertainty_scalar exact_test ([5, 12.3456] ! i) ([0, 0.07] ! i)
       = Inr ([5, 12.35] ! i, [0, 0.07] ! i)"
      using example_leading_seven
      by (auto simp: round_sig_fig_uncertainty_scalar_def)
  qed
qed simp_all

lemma example_zero_array:
  "round_sig_fig_uncertainty_array t [5] [0, 0] = Inr ([5], [0])"
  by (simp add: round_sig_fig_uncertainty_array_def)

subsection \<open>Rounding a value to its uncertainty\<close>

text \<open>
  When the float64 test decides as exact arithmetic does, the function follows the
  rule of the specification. For a positive uncertainty \<open>u\<close> whose leading digit is
  not 1, the uncertainty is rounded to the decimal place of its leading digit (one
  significant figure) and the value to the decimal place of the leading digit of the
  rounded uncertainty. When the leading digit is 1, the uncertainty is rounded one
  place further to the right (two significant figures) and the value to that same
  place. \<open>(12.3456, 0.07)\<close> gives \<open>(12.35, 0.07)\<close> and \<open>(12.3456, 0.012)\<close>
  gives \<open>(12.346, 0.012)\<close>. In the result of a call on two arrays, every pair of
  elements is what the call on that pair of numbers returns.
\<close>

lemma rule_with_exact_test:
  "(0 < u \<and> leading_digit u \<noteq> 1 \<longrightarrow>
      (\<exists>v' u'. round_sig_fig_uncertainty exact_test (ScalarPair v u) = Inr (ScalarPair v' u')
         \<and> u' = np_round u (- floor_log10 u) \<and> rounded_to_place u (floor_log10 u) u'
         \<and> 0 < u'
         \<and> v' = np_round v (- floor_log10 u') \<and> rounded_to_place v (floor_log10 u') v'))
   \<and> (0 < u \<and> leading_digit u = 1 \<longrightarrow>
      (\<exists>v' u'. round_sig_fig_uncertainty exact_test (ScalarPair v u) = Inr (ScalarPair v' u')
         \<and> u' = np_round u (- (floor_log10 u - 1)) \<and> rounded_to_place u (floor_log10 u - 1) u'
         \<and> v' = np_round v (- (floor_log10 u - 1)) \<and> rounded_to_place v (floor_log10 u - 1) v'))
   \<and> round_sig_fig_uncertainty exact_test (ScalarPair 12.3456 0.07) = Inr (ScalarPair 12.35 0.07)
   \<and> round_sig_fig_uncertainty exact_test (ScalarPair 12.3456 0.012) = Inr (ScalarPair 12.346 0.012)
   \<and> (round_sig_fig_uncertainty exact_test (ArrayPair vs us) = Inr (ArrayPair vo uo) \<longrightarrow>
        (\<forall>i<length vs.
           round_sig_fig_uncertainty exact_test (ScalarPair (vs ! i) (us ! i)) = Inr (ScalarPair (vo ! i) (uo ! i))))"
proof (intro conjI impI)
  assume a: "0 < u \<and> leading_digit u \<noteq> 1"
  then have pos: "0 < u" and ld: "leading_digit u \<noteq> 1" by simp_all
  let ?u' = "np_round u (- floor_log10 u)"
  have "10 powi floor_log10 u \<le> u"
    using floor_log10_bounds[OF pos] by simp
  then have "10 powi floor_log10 u \<le> ?u'"
    using np_round_pos[of "- floor_log10 u" u] by simp
  then have "0 < ?u'"
    using pow10_pos[of "floor_log10 u"] by linarith
  moreover have "round_sig_fig_uncertainty exact_test (ScalarPair v u)
      = Inr (ScalarPair (np_round v (- floor_log10 ?u')) ?u')"
    using pos round_nonzero_not_one[of u exact_test v] ld
    by (simp add: round_sig_fig_uncertainty_scalar_def exact_test_def)
  ultimately show "\<exists>v' u'. round_sig_fig_uncertainty exact_test (ScalarPair v u) = Inr (ScalarPair v' u')
         \<and> u' = np_round u (- floor_log10 u) \<and> rounded_to_place u (floor_log10 u) u'
         \<and> 0 < u'
         \<and> v' = np_round v (- floor_log10 u') \<and> rounded_to_place v (floor_log10 u') v'"
    using np_round_rounded by blast
next
  assume a: "0 < u \<and> leading_digit u = 1"
  then have pos: "0 < u" and ld: "leading_digit u = 1" by simp_all
  have "round_sig_fig_uncertainty exact_test (ScalarPair v u)
      = Inr (ScalarPair (np_round v (- (floor_log10 u - 1))) (np_round u (- (floor_log10 u - 1))))"
    using pos round_nonzero_one[of u exact_test v] ld
    by (simp add: round_sig_fig_uncertainty_scalar_def exact_test_def)
  then show "\<exists>v' u'. round_sig_fig_uncertainty exact_test (ScalarPair v u) = Inr (ScalarPair v' u')
         \<and> u' = np_round u (- (floor_log10 u - 1)) \<and> rounded_to_place u (floor_log10 u - 1) u'
         \<and> v' = np_round v (- (floor_log10 u - 1)) \<and> rounded_to_place v (floor_log10 u - 1) v'"
    using np_round_rounded by blast
next
  show "round_sig_fig_uncertainty exact_test (ScalarPair 12.3456 0.07) = Inr (ScalarPair 12.35 0.07)"
    using example_leading_seven by simp
next
  show "round_sig_fig_uncertainty exact_test (ScalarPair 12.3456 0.012) = Inr (ScalarPair 12.346 0.012)"
    using example_leading_one by simp
next
  assume "round_sig_fig_uncertainty exact_test (ArrayPair vs us) = Inr (ArrayPair vo uo)"
  then have "round_sig_fig_uncertainty_array exact_test vs us = Inr (vo, uo)"
    by (cases "round_sig_fig_uncertainty_array exact_test vs us") auto
  from array_result[OF this]
  show "\<forall>i<length vs.
           round_sig_fig_uncertainty exact_test (ScalarPair (vs ! i) (us ! i)) = Inr (ScalarPair (vo ! i) (uo ! i))"
    by simp
qed


text \<open>
  C4, as the code has it, whatever the float64 test \<open>t\<close> yields. The lengths of the
  two arrays are never compared. When the
  uncertainty array is the shorter one, the loop reads past its end and the call fails
  with IndexError, unless it has failed before with ValueError on a negative
  uncertainty. When the uncertainty array is the longer one, its extra elements are
  never read: the call returns what it returns on the array cut to the length of
  \<open>value\<close>, and it succeeds with two arrays of that length when the uncertainties
  it reads are not negative.
\<close>

theorem unequal_lengths_not_checked:
  "(length us < length vs \<longrightarrow>
      round_sig_fig_uncertainty t (ArrayPair vs us) = Inl IndexError
      \<or> round_sig_fig_uncertainty t (ArrayPair vs us) = Inl ValueError \<and> (\<exists>i<length us. us ! i < 0))
   \<and> (length vs < length us \<longrightarrow>
      round_sig_fig_uncertainty t (ArrayPair vs us)
        = round_sig_fig_uncertainty t (ArrayPair vs (take (length vs) us)))
   \<and> (length vs < length us \<and> (\<forall>i<length vs. 0 \<le> us ! i) \<longrightarrow>
      (\<exists>vo uo. round_sig_fig_uncertainty t (ArrayPair vs us) = Inr (ArrayPair vo uo)
         \<and> length vo = length vs \<and> length uo = length vs))"
proof (intro conjI impI)
  assume "length us < length vs"
  from array_too_short[where t = t, OF this]
  show "round_sig_fig_uncertainty t (ArrayPair vs us) = Inl IndexError
      \<or> round_sig_fig_uncertainty t (ArrayPair vs us) = Inl ValueError \<and> (\<exists>i<length us. us ! i < 0)"
    by auto
next
  show "round_sig_fig_uncertainty t (ArrayPair vs us)
        = round_sig_fig_uncertainty t (ArrayPair vs (take (length vs) us))"
    by (simp add: array_take)
next
  assume a: "length vs < length us \<and> (\<forall>i<length vs. 0 \<le> us ! i)"
  then have "length vs \<le> length us" by simp
  from array_success[OF this] a obtain vo uo where
    r: "round_sig_fig_uncertainty_array t vs us = Inr (vo, uo)" by blast
  from array_result[OF r] r
  show "\<exists>vo uo. round_sig_fig_uncertainty t (ArrayPair vs us) = Inr (ArrayPair vo uo)
         \<and> length vo = length vs \<and> length uo = length vs"
    by simp
qed

theorem unequal_lengths_not_checked_witness:
  "round_sig_fig_uncertainty exact_test (ArrayPair [1, 2] [0]) = Inl IndexError
   \<and> round_sig_fig_uncertainty exact_test (ArrayPair [5] [0, 0]) = round_sig_fig_uncertainty exact_test (ArrayPair [5] [0])
   \<and> (\<exists>vo uo. round_sig_fig_uncertainty exact_test (ArrayPair [5] [0, 0]) = Inr (ArrayPair vo uo)
        \<and> length vo = 1 \<and> length uo = 1)"
proof -
  note short = unequal_lengths_not_checked[where t = exact_test and vs = "[1, 2]" and us = "[0]"]
  note long = unequal_lengths_not_checked[where t = exact_test and vs = "[5]" and us = "[0, 0]"]
  have "length [0 :: real] < length [1, 2 :: real]" "\<not> (\<exists>i<length [0 :: real]. [0 :: real] ! i < 0)"
    by simp_all
  with short have a: "round_sig_fig_uncertainty exact_test (ArrayPair [1, 2] [0]) = Inl IndexError"
    by blast
  have l: "length [5 :: real] < length [0, 0 :: real]"
    and nn: "\<forall>i<length [5 :: real]. 0 \<le> [0, 0 :: real] ! i"
    by simp_all
  from long l have "round_sig_fig_uncertainty exact_test (ArrayPair [5] [0, 0])
      = round_sig_fig_uncertainty exact_test (ArrayPair [5] (take (length [5 :: real]) [0, 0]))"
    by blast
  then have b: "round_sig_fig_uncertainty exact_test (ArrayPair [5] [0, 0])
      = round_sig_fig_uncertainty exact_test (ArrayPair [5] [0])"
    by simp
  from long l nn have "\<exists>vo uo. round_sig_fig_uncertainty exact_test (ArrayPair [5] [0, 0]) = Inr (ArrayPair vo uo)
        \<and> length vo = length [5 :: real] \<and> length uo = length [5 :: real]"
    by blast
  then have c: "\<exists>vo uo. round_sig_fig_uncertainty exact_test (ArrayPair [5] [0, 0]) = Inr (ArrayPair vo uo)
        \<and> length vo = 1 \<and> length uo = 1"
    by simp
  from a b c show ?thesis by blast
qed

text \<open>
  One value with two uncertainties: no failure, the second uncertainty is ignored.
\<close>

theorem longer_uncertainty_counterexample:
  "round_sig_fig_uncertainty exact_test (ArrayPair [5] [0, 0]) = Inr (ArrayPair [5] [0])"
  by (simp add: example_zero_array)

text \<open>
  C5, whatever the float64 test \<open>t\<close> yields. With uncertainty 0 a number is returned
  as it came, with its uncertainty 0. In
  the result of a call on two arrays, an element whose uncertainty is 0 is unchanged and
  every other element is rounded as a pair of numbers would be; the call on two arrays
  succeeds when the uncertainty array is long enough and no uncertainty read is negative.
\<close>

theorem zero_uncertainty_unchanged:
  "round_sig_fig_uncertainty t (ScalarPair v 0) = Inr (ScalarPair v 0)
   \<and> (round_sig_fig_uncertainty t (ArrayPair vs us) = Inr (ArrayPair vo uo) \<longrightarrow>
        length vo = length vs \<and> length uo = length vs
        \<and> (\<forall>i<length vs.
              (us ! i = 0 \<longrightarrow> vo ! i = vs ! i \<and> uo ! i = 0)
            \<and> (us ! i \<noteq> 0 \<longrightarrow>
                 round_sig_fig_uncertainty t (ScalarPair (vs ! i) (us ! i))
                   = Inr (ScalarPair (vo ! i) (uo ! i)))))
   \<and> (length vs \<le> length us \<and> (\<forall>i<length vs. 0 \<le> us ! i) \<longrightarrow>
        (\<exists>vo uo. round_sig_fig_uncertainty t (ArrayPair vs us) = Inr (ArrayPair vo uo)))"
proof (intro conjI impI)
  show "round_sig_fig_uncertainty t (ScalarPair v 0) = Inr (ScalarPair v 0)"
    by (simp add: round_sig_fig_uncertainty_scalar_def)
next
  assume "round_sig_fig_uncertainty t (ArrayPair vs us) = Inr (ArrayPair vo uo)"
  then have r: "round_sig_fig_uncertainty_array t vs us = Inr (vo, uo)"
    by (cases "round_sig_fig_uncertainty_array t vs us") auto
  note res = array_result[OF r]
  from res show "length vo = length vs" by simp
  from res show "length uo = length vs" by simp
  show "\<forall>i<length vs.
              (us ! i = 0 \<longrightarrow> vo ! i = vs ! i \<and> uo ! i = 0)
            \<and> (us ! i \<noteq> 0 \<longrightarrow>
                 round_sig_fig_uncertainty t (ScalarPair (vs ! i) (us ! i))
                   = Inr (ScalarPair (vo ! i) (uo ! i)))"
  proof (intro allI impI conjI)
    fix i assume i: "i < length vs" and z: "us ! i = 0"
    from res i have "round_sig_fig_uncertainty_scalar t (vs ! i) (us ! i) = Inr (vo ! i, uo ! i)"
      by simp
    with z show "vo ! i = vs ! i" "uo ! i = 0"
      by (simp_all add: round_sig_fig_uncertainty_scalar_def)
  next
    fix i assume i: "i < length vs"
    from res i have "round_sig_fig_uncertainty_scalar t (vs ! i) (us ! i) = Inr (vo ! i, uo ! i)"
      by simp
    then show "round_sig_fig_uncertainty t (ScalarPair (vs ! i) (us ! i))
                   = Inr (ScalarPair (vo ! i) (uo ! i))"
      by simp
  qed
next
  assume "length vs \<le> length us \<and> (\<forall>i<length vs. 0 \<le> us ! i)"
  then obtain vo uo where "round_sig_fig_uncertainty_array t vs us = Inr (vo, uo)"
    using array_success[of vs us] by blast
  then show "\<exists>vo uo. round_sig_fig_uncertainty t (ArrayPair vs us) = Inr (ArrayPair vo uo)"
    by simp
qed

theorem zero_uncertainty_unchanged_witness:
  "round_sig_fig_uncertainty exact_test (ScalarPair 5 0) = Inr (ScalarPair 5 0)
   \<and> round_sig_fig_uncertainty exact_test (ArrayPair [5, 12.3456] [0, 0.07]) = Inr (ArrayPair [5, 12.35] [0, 0.07])
   \<and> [5, 12.35 :: real] ! 0 = [5, 12.3456] ! 0 \<and> [0, 0.07 :: real] ! 0 = 0
   \<and> round_sig_fig_uncertainty exact_test (ScalarPair ([5, 12.3456] ! 1) ([0, 0.07] ! 1))
        = Inr (ScalarPair ([5, 12.35] ! 1) ([0, 0.07] ! 1))"
proof -
  have arr: "round_sig_fig_uncertainty exact_test (ArrayPair [5, 12.3456] [0, 0.07])
      = Inr (ArrayPair [5, 12.35] [0, 0.07])"
    by (simp only: round_sig_fig_uncertainty.simps example_array map_sum.simps id_apply prod.case)
  note z = zero_uncertainty_unchanged[where t = exact_test and v = 5 and vs = "[5, 12.3456]"
      and us = "[0, 0.07]" and vo = "[5, 12.35]" and uo = "[0, 0.07]"]
  from z have s: "round_sig_fig_uncertainty exact_test (ScalarPair 5 0) = Inr (ScalarPair 5 0)"
    by blast
  from z arr have el: "\<forall>i<length [5, 12.3456 :: real].
              ([0, 0.07 :: real] ! i = 0 \<longrightarrow> [5, 12.35 :: real] ! i = [5, 12.3456] ! i \<and> [0, 0.07 :: real] ! i = 0)
            \<and> ([0, 0.07 :: real] ! i \<noteq> 0 \<longrightarrow>
                 round_sig_fig_uncertainty exact_test (ScalarPair ([5, 12.3456] ! i) ([0, 0.07] ! i))
                   = Inr (ScalarPair ([5, 12.35] ! i) ([0, 0.07] ! i)))"
    by blast
  have l: "0 < length [5, 12.3456 :: real]" "1 < length [5, 12.3456 :: real]" by simp_all
  have z0: "[0, 0.07 :: real] ! 0 = 0" and n1: "[0, 0.07 :: real] ! 1 \<noteq> 0" by simp_all
  from el l(1) z0 have a: "[5, 12.35 :: real] ! 0 = [5, 12.3456] ! 0" by blast
  from el l(2) n1 have b: "round_sig_fig_uncertainty exact_test (ScalarPair ([5, 12.3456] ! 1) ([0, 0.07] ! 1))
        = Inr (ScalarPair ([5, 12.35] ! 1) ([0, 0.07] ! 1))" by blast
  from s arr a z0 b show ?thesis by blast
qed



subsection \<open>Rounding to a number of significant figures\<close>








subsection \<open>Arrays with a shape\<close>








subsection \<open>Python ints\<close>


















end
